theory Spec2Isabelle
  imports Main "HOL-Library.Sublist"
begin

section \<open>Strings\<close>

text \<open>
  Python strings are modelled as \<open>string\<close>: a character is a code point below 256
  (Latin-1). The three library operations that \<^verbatim>\<open>src/app.py\<close> applies to them are
  written out on that range: \<^verbatim>\<open>str.strip()\<close>, \<^verbatim>\<open>str.lower()\<close> and
  \<^verbatim>\<open>str.split(";")\<close>. The test \<^verbatim>\<open>needle in name\<close> is the contiguous-sublist test
  \<open>sublist needle name\<close>.
\<close>

definition is_space :: "char \<Rightarrow> bool" where
  \<comment> \<open>\<^verbatim>\<open>str.isspace\<close> below 256: tab, LF, VT, FF, CR, FS, GS, RS, US, the blank,
      NEL (0x85) and the no-break space (0xA0)\<close>
  "is_space c = (of_char c \<in> {9, 10, 11, 12, 13, 28, 29, 30, 31, 32, 133, 160 :: nat})"

definition strip :: "string \<Rightarrow> string" where
  \<comment> \<open>\<^verbatim>\<open>s.strip()\<close>: leading and trailing whitespace removed.\<close>
  "strip s = rev (dropWhile is_space (rev (dropWhile is_space s)))"

definition is_upper :: "char \<Rightarrow> bool" where
  \<comment> \<open>the characters below 256 that \<^verbatim>\<open>str.lower()\<close> changes: A to Z, and the Latin-1
      capitals 0xC0 to 0xDE but for the multiplication sign 0xD7\<close>
  "is_upper c =
     (let n = (of_char c :: nat) in (65 \<le> n \<and> n \<le> 90) \<or> (192 \<le> n \<and> n \<le> 222 \<and> n \<noteq> 215))"

definition lower_char :: "char \<Rightarrow> char" where
  "lower_char c = (if is_upper c then char_of ((of_char c :: nat) + 32) else c)"

definition lower :: "string \<Rightarrow> string" where
  \<comment> \<open>\<^verbatim>\<open>s.lower()\<close>: every capital replaced by its small letter, 32 code points up\<close>
  "lower s = map lower_char s"

fun split :: "char \<Rightarrow> string \<Rightarrow> string list" where
  \<comment> \<open>\<^verbatim>\<open>s.split(sep)\<close> for a one-character separator: empty segments are kept, and
      the empty string gives one empty segment.\<close>
  "split sep [] = [[]]"
| "split sep (c # cs) =
     (if c = sep then [] # split sep cs
      else (case split sep cs of
              [] \<Rightarrow> [[c]]
            | w # ws \<Rightarrow> (c # w) # ws))"

section \<open>The pattern dialog\<close>

text \<open>
  \<^verbatim>\<open>FilterDialog.patterns\<close> (lines 48--53), as a function of the text of the dialog's
  line edit.
\<close>

definition patterns :: "string \<Rightarrow> string list" where
  "patterns text =
     (let raw = strip text in
      if raw = [] then []
      else let parts = map strip (split (CHR '';'') raw) in
           filter (\<lambda>p. p \<noteq> []) parts)"

text \<open>
  The same operation as the specification words it: split the stripped text on the
  semicolon, strip every segment, drop the empty segments. There is no separate case
  for the empty text.
\<close>

definition patterns_spec :: "string \<Rightarrow> string list" where
  "patterns_spec text = filter (\<lambda>p. p \<noteq> []) (map strip (split (CHR '';'') (strip text)))"

section \<open>The file-system model and its indexes\<close>

text \<open>
  The application owns no tree: it reads the toolkit's file-system model through model
  indexes. An index is either invalid or names row \<open>r\<close> under a parent index; the parent
  of a top-level row is the invalid index. The rows the model has loaded are a forest of
  nodes, each with the attributes that \<^verbatim>\<open>src/app.py\<close> reads: \<^verbatim>\<open>fileName\<close>, \<^verbatim>\<open>filePath\<close>,
  \<^verbatim>\<open>isDir\<close> and, through \<^verbatim>\<open>rowCount\<close> and \<^verbatim>\<open>index(r, 0, idx)\<close>, the child rows.
\<close>

datatype qindex = Invalid | Row qindex nat

fun isValid :: "qindex \<Rightarrow> bool" where
  "isValid Invalid = False"
| "isValid (Row p r) = True"


datatype fsnode = FsNode (node_name: string) (node_path: string) (node_dir: bool)
  (node_children: "fsnode list")

record fs_model =
  top_rows :: "fsnode list"            \<comment> \<open>the loaded top-level rows\<close>
  path_index :: "string \<Rightarrow> qindex"     \<comment> \<open>\<^verbatim>\<open>model.index(path)\<close>\<close>
  nameFilters :: "string list"
  nameFilterDisables :: bool

definition row_at :: "fsnode list \<Rightarrow> nat \<Rightarrow> fsnode option" where
  "row_at ns r = (if r < length ns then Some (ns ! r) else None)"

fun node_at :: "fsnode list \<Rightarrow> qindex \<Rightarrow> fsnode option" where
  "node_at tops Invalid = None"
| "node_at tops (Row Invalid r) = row_at tops r"
| "node_at tops (Row p r) =
     (case node_at tops p of
        None \<Rightarrow> None
      | Some n \<Rightarrow> row_at (node_children n) r)"

definition fileName :: "fs_model \<Rightarrow> qindex \<Rightarrow> string" where
  "fileName m idx = (case node_at (top_rows m) idx of None \<Rightarrow> [] | Some n \<Rightarrow> node_name n)"

definition filePath :: "fs_model \<Rightarrow> qindex \<Rightarrow> string" where
  "filePath m idx = (case node_at (top_rows m) idx of None \<Rightarrow> [] | Some n \<Rightarrow> node_path n)"

definition isDir :: "fs_model \<Rightarrow> qindex \<Rightarrow> bool" where
  "isDir m idx = (case node_at (top_rows m) idx of None \<Rightarrow> False | Some n \<Rightarrow> node_dir n)"

definition rowCount :: "fs_model \<Rightarrow> qindex \<Rightarrow> nat" where
  "rowCount m idx =
     (case node_at (top_rows m) idx of None \<Rightarrow> 0 | Some n \<Rightarrow> length (node_children n))"

definition index :: "fs_model \<Rightarrow> nat \<Rightarrow> qindex \<Rightarrow> qindex" where
  \<comment> \<open>\<^verbatim>\<open>model.index(r, 0, idx)\<close>, called by the source on valid \<open>idx\<close> only\<close>
  "index m r idx = (if r < rowCount m idx then Row idx r else Invalid)"

section \<open>The state of the main window\<close>

text \<open>
  What the operating system answers is a parameter: \<^verbatim>\<open>os.path.abspath\<close>,
  \<^verbatim>\<open>os.path.isdir\<close>, \<^verbatim>\<open>os.path.dirname\<close> and the text of a \<^verbatim>\<open>pathlib.Path\<close>.
\<close>

record os_env =
  abspath :: "string \<Rightarrow> string"
  isdir :: "string \<Rightarrow> bool"
  dirname :: "string \<Rightarrow> string"
  path_str :: "string \<Rightarrow> string"     \<comment> \<open>\<^verbatim>\<open>str(Path(p))\<close>\<close>

datatype dialog = Warning string string   \<comment> \<open>\<^verbatim>\<open>QMessageBox.warning\<close>: title and text\<close>

text \<open>
  The widgets' state that the handlers read and write, and a log for every effect that
  leaves the window: the modal dialogs shown, the clipboard, the paths handed to
  \<^verbatim>\<open>os.startfile\<close>. The status bar holds the message and its timeout in milliseconds
  (0, the default of \<^verbatim>\<open>showMessage\<close>, is a message that stays). \<open>expanded\<close> is the set
  of indexes the tree view has been asked to expand since it was last collapsed.
  \<open>visited\<close> is a trace, not a widget: the indexes popped at line 197 during the last run
  of \<^verbatim>\<open>_filter_tree\<close>, in order.
\<close>

record app_state =
  model :: fs_model
  rootIndex :: qindex
  expanded :: "qindex set"
  updatesEnabled :: bool
  selectedRows :: "qindex list option"  \<comment> \<open>\<open>None\<close>: the view has no selection model\<close>
  search :: string
  status :: "string \<times> int"
  clipboard :: string
  dialogs :: "dialog list"
  started :: "string list"
  visited :: "qindex list"

section \<open>Incremental search\<close>

fun expand_up :: "qindex \<Rightarrow> qindex set \<Rightarrow> qindex set" where
  \<comment> \<open>lines 204--207: \<^verbatim>\<open>p = idx; while p.isValid(): expand(p); p = p.parent()\<close>\<close>
  "expand_up Invalid ex = ex"
| "expand_up (Row p r) ex = expand_up p (insert (Row p r) ex)"

definition push_children :: "fs_model \<Rightarrow> qindex \<Rightarrow> qindex list \<Rightarrow> qindex list" where
  \<comment> \<open>lines 210--215; the stack's top is the head of the list\<close>
  "push_children m idx stack =
     (let rows = rowCount m idx in
      foldl (\<lambda>st r. let child = index m r idx in if isValid child then child # st else st)
        stack (rev [0..<rows]))"

definition name_matches :: "fs_model \<Rightarrow> string \<Rightarrow> qindex \<Rightarrow> bool" where
  \<comment> \<open>lines 201--202: \<^verbatim>\<open>needle in self.model.fileName(idx).lower()\<close>\<close>
  "name_matches m needle idx = sublist needle (lower (fileName m idx))"

text \<open>
  The loop of \<^verbatim>\<open>_expand_matching_under\<close> (lines 196--215) on its variables: the stack
  (top at the head), \<open>remaining\<close>, and the two things it changes, the view's expanded set
  and the trace of popped indexes.
\<close>

function walk ::
  "fs_model \<Rightarrow> string \<Rightarrow> qindex list \<Rightarrow> int \<Rightarrow> qindex set \<Rightarrow> qindex list
     \<Rightarrow> int \<times> qindex set \<times> qindex list" where
  "walk m needle stack remaining ex vis =
     (case stack of
        [] \<Rightarrow> (remaining, ex, vis)
      | idx # rest \<Rightarrow>
          if \<not> remaining > 0 then (remaining, ex, vis)
          else if \<not> isValid idx then walk m needle rest (remaining - 1) ex (vis @ [idx])
          else
            walk m needle
              (if isDir m idx then push_children m idx rest else rest)
              (remaining - 1)
              (if name_matches m needle idx then expand_up idx ex else ex)
              (vis @ [idx]))"
  by pat_completeness auto
termination
  by (relation "measure (\<lambda>(m, needle, stack, remaining, ex, vis). nat remaining)") auto

definition expand_matching_under ::
  "qindex \<Rightarrow> string \<Rightarrow> int \<Rightarrow> app_state \<Rightarrow> int \<times> app_state" where
  "expand_matching_under parent_idx needle max_nodes s =
     (case walk (model s) needle [parent_idx] max_nodes (expanded s) (visited s) of
        (remaining, ex, vis) \<Rightarrow> (remaining, s\<lparr>expanded := ex, visited := vis\<rparr>))"

definition filter_tree :: "string \<Rightarrow> app_state \<Rightarrow> app_state" where
  \<comment> \<open>\<^verbatim>\<open>_filter_tree\<close>, lines 179--190; the \<^verbatim>\<open>finally\<close> clause runs on both paths\<close>
  "filter_tree needle s =
     (let s1 = s\<lparr>updatesEnabled := False, visited := []\<rparr>;
          s2 = s1\<lparr>expanded := {}\<rparr>
      in if needle = [] then s2\<lparr>updatesEnabled := True\<rparr>
         else let s3 = snd (expand_matching_under (rootIndex s2) needle 4000 s2)
              in s3\<lparr>updatesEnabled := True\<rparr>)"

definition apply_name_filter :: "app_state \<Rightarrow> app_state" where
  \<comment> \<open>\<^verbatim>\<open>_apply_name_filter\<close>, lines 175--177\<close>
  "apply_name_filter s = filter_tree (lower (strip (search s))) s"

definition search_setText :: "string \<Rightarrow> app_state \<Rightarrow> app_state" where
  \<comment> \<open>the search box gets a new text; \<^verbatim>\<open>textChanged\<close>, connected to
      \<^verbatim>\<open>_apply_name_filter\<close> at line 84, fires when the text differs from the old one\<close>
  "search_setText text s =
     (if search s = text then s else apply_name_filter (s\<lparr>search := text\<rparr>))"

section \<open>Choosing the root folder\<close>

definition set_status_root :: "os_env \<Rightarrow> string \<Rightarrow> app_state \<Rightarrow> app_state" where
  \<comment> \<open>\<^verbatim>\<open>_set_status_root(Path(folder))\<close>, lines 149--150\<close>
  "set_status_root env folder s = s\<lparr>status := (''Root: '' @ path_str env folder, 0)\<rparr>"

definition not_a_directory :: "string \<Rightarrow> dialog" where
  "not_a_directory folder =
     Warning ''Not a folder'' (''That path is not a directory:'' @ [CHR 0x0A] @ folder)"

definition set_root :: "os_env \<Rightarrow> string \<Rightarrow> app_state \<Rightarrow> app_state" where
  \<comment> \<open>lines 165--173\<close>
  "set_root env folder0 s =
     (let folder = abspath env folder0 in
      if \<not> isdir env folder then s\<lparr>dialogs := dialogs s @ [not_a_directory folder]\<rparr>
      else
        let root_index = path_index (model s) folder;
            s1 = s\<lparr>rootIndex := root_index\<rparr>;
            s2 = set_status_root env folder s1
        in search_setText [] s2)"

section \<open>Selection, clipboard and shell\<close>

definition selected_index :: "app_state \<Rightarrow> qindex option" where
  \<comment> \<open>lines 218--225\<close>
  "selected_index s =
     (case selectedRows s of
        None \<Rightarrow> None
      | Some indexes \<Rightarrow> (case indexes of [] \<Rightarrow> None | i # _ \<Rightarrow> Some i))"

definition selected_path :: "app_state \<Rightarrow> string option" where
  \<comment> \<open>lines 227--231; \<^verbatim>\<open>not idx\<close> holds of \<^verbatim>\<open>None\<close> only, an index object is truthy\<close>
  "selected_path s =
     (case selected_index s of
        None \<Rightarrow> None
      | Some idx \<Rightarrow> Some (filePath (model s) idx))"

definition falsy :: "string option \<Rightarrow> bool" where
  \<comment> \<open>\<^verbatim>\<open>not path\<close> for a \<^verbatim>\<open>str | None\<close>: true of \<^verbatim>\<open>None\<close> and of the empty string\<close>
  "falsy path = (case path of None \<Rightarrow> True | Some p \<Rightarrow> p = [])"

definition copy_selected_path :: "app_state \<Rightarrow> app_state" where
  \<comment> \<open>lines 233--238\<close>
  "copy_selected_path s =
     (let path = selected_path s in
      if falsy path then s
      else s\<lparr>clipboard := the path, status := (''Copied: '' @ the path, 2500)\<rparr>)"

definition open_in_explorer :: "os_env \<Rightarrow> app_state \<Rightarrow> app_state" where
  \<comment> \<open>lines 240--248\<close>
  "open_in_explorer env s =
     (let path = selected_path s in
      if falsy path then s
      else if isdir env (the path) then s\<lparr>started := started s @ [the path]\<rparr>
      else s\<lparr>started := started s @ [dirname env (the path)]\<rparr>)"

section \<open>The pattern filter\<close>

datatype dialog_code = Accepted | Rejected

definition join :: "string \<Rightarrow> string list \<Rightarrow> string" where
  \<comment> \<open>\<^verbatim>\<open>sep.join(xs)\<close>\<close>
  "join sep xs = (case xs of [] \<Rightarrow> [] | x # ys \<Rightarrow> x @ concat (map (\<lambda>y. sep @ y) ys))"

definition setNameFilters :: "string list \<Rightarrow> app_state \<Rightarrow> app_state" where
  "setNameFilters ps s = s\<lparr>model := (model s)\<lparr>nameFilters := ps\<rparr>\<rparr>"

definition setNameFilterDisables :: "bool \<Rightarrow> app_state \<Rightarrow> app_state" where
  "setNameFilterDisables b s = s\<lparr>model := (model s)\<lparr>nameFilterDisables := b\<rparr>\<rparr>"

definition clear_pattern_filter :: "app_state \<Rightarrow> app_state" where
  \<comment> \<open>lines 262--265\<close>
  "clear_pattern_filter s =
     (let s1 = setNameFilters [] s;
          s2 = setNameFilterDisables True s1
      in s2\<lparr>status := (''File pattern filter cleared'', 2500)\<rparr>)"

definition filter_by_patterns :: "dialog_code \<Rightarrow> string \<Rightarrow> app_state \<Rightarrow> app_state" where
  \<comment> \<open>lines 250--260; the arguments are what \<^verbatim>\<open>dlg.exec()\<close> returned and the text the
      user left in the dialog's line edit\<close>
  "filter_by_patterns code text s =
     (if code \<noteq> Accepted then s
      else
        let ps = patterns text in
        if ps = [] then clear_pattern_filter s
        else
          let s1 = setNameFilters ps s;
              s2 = setNameFilterDisables False s1
          in s2\<lparr>status := (''Filter: '' @ join '';'' ps, 4000)\<rparr>)"

section \<open>Notions the properties are stated in\<close>




text \<open>
  The order in which a depth-first walk meets the indexes below an index: the index,
  then, if it is a directory, the walks of its child rows from row 0 on. Files are
  leaves whatever rows they have.
\<close>

fun pre_node :: "qindex \<Rightarrow> fsnode \<Rightarrow> qindex list"
  and pre_rows :: "qindex \<Rightarrow> nat \<Rightarrow> fsnode list \<Rightarrow> qindex list" where
  "pre_node idx (FsNode nm pth d cs) = idx # (if d then pre_rows idx 0 cs else [])"
| "pre_rows idx r [] = []"
| "pre_rows idx r (c # cs) = pre_node (Row idx r) c @ pre_rows idx (Suc r) cs"

definition pre_index :: "fs_model \<Rightarrow> qindex \<Rightarrow> qindex list" where
  "pre_index m idx =
     (case node_at (top_rows m) idx of
        None \<Rightarrow> [idx]
      | Some n \<Rightarrow> pre_node idx n)"




section \<open>A small window to run the handlers on\<close>

text \<open>
  A loaded model with one top-level folder, and an operating system that knows the same
  folders. It serves to evaluate the handlers on concrete inputs.
\<close>

definition demo_rows :: "fsnode list" where
  "demo_rows =
     [FsNode ''home'' ''/home'' True
        [FsNode ''Notes'' ''/home/Notes'' True
           [FsNode ''plan.TXT'' ''/home/Notes/plan.TXT'' False [],
            FsNode ''todo.md'' ''/home/Notes/todo.md'' False []],
         FsNode ''a.txt'' ''/home/a.txt'' False [],
         FsNode ''b.txt'' ''/home/b.txt'' False [],
         FsNode ''src'' ''/home/src'' True
           [FsNode ''plan.py'' ''/home/src/plan.py'' False []]]]"

definition demo_model :: fs_model where
  "demo_model =
     \<lparr>top_rows = demo_rows,
      path_index = (\<lambda>p. if p = ''/home'' then Row Invalid 0
                         else if p = ''/home/Notes'' then Row (Row Invalid 0) 0
                         else if p = ''/home/src'' then Row (Row Invalid 0) 3
                         else Invalid),
      nameFilters = [],
      nameFilterDisables = True\<rparr>"

definition demo_env :: os_env where
  "demo_env =
     \<lparr>abspath = (\<lambda>p. if take 1 p = ''/'' then p else ''/home/'' @ p),
      isdir = (\<lambda>p. p \<in> set [''/'', ''/home'', ''/home/Notes'', ''/home/src'']),
      dirname = (\<lambda>p. rev (drop 1 (dropWhile (\<lambda>c. c \<noteq> CHR ''/'') (rev p)))),
      path_str = (\<lambda>p. p)\<rparr>"

definition demo_state :: app_state where
  "demo_state =
     \<lparr>model = demo_model,
      rootIndex = Row Invalid 0,
      expanded = {Row (Row Invalid 0) 3},
      updatesEnabled = True,
      selectedRows = Some [],
      search = ''old'',
      status = (''Root: /home'', 0),
      clipboard = ''before'',
      dialogs = [],
      started = [],
      visited = []\<rparr>"

text \<open>
  The same window on a model with more rows than the walk's cap: one folder of 5000 files.
\<close>

definition big_state :: app_state where
  "big_state = demo_state\<lparr>model := demo_model\<lparr>top_rows :=
       [FsNode ''big'' ''/big'' True (replicate 5000 (FsNode ''f'' ''/big/f'' False []))]\<rparr>\<rparr>"

section \<open>Facts about strings\<close>

lemma dropWhile_all: "list_all P xs \<Longrightarrow> dropWhile P xs = []"
  by (induction xs) auto

lemma strip_blank: "list_all is_space text \<Longrightarrow> strip text = []"
  by (simp add: strip_def dropWhile_all)

lemma strip_Nil: "strip [] = []"
  by (simp add: strip_def)

section \<open>Facts about the walk\<close>

declare walk.simps [simp del]



lemma walk_Nil: "walk m needle [] remaining ex vis = (remaining, ex, vis)"
  by (simp add: walk.simps)

lemma walk_stop: "\<not> remaining > 0 \<Longrightarrow> walk m needle stack remaining ex vis = (remaining, ex, vis)"
  by (cases stack) (simp_all add: walk.simps)

lemma walk_invalid:
  "remaining > 0 \<Longrightarrow> \<not> isValid idx \<Longrightarrow>
   walk m needle (idx # rest) remaining ex vis =
     walk m needle rest (remaining - 1) ex (vis @ [idx])"
  by (simp add: walk.simps)

lemma walk_valid:
  "remaining > 0 \<Longrightarrow> isValid idx \<Longrightarrow>
   walk m needle (idx # rest) remaining ex vis =
     walk m needle (if isDir m idx then push_children m idx rest else rest) (remaining - 1)
       (if name_matches m needle idx then expand_up idx ex else ex) (vis @ [idx])"
  by (simp add: walk.simps)

lemma walk_cases [case_names empty stop invalid valid]:
  assumes "stack = [] \<Longrightarrow> Q"
    and "\<And>idx rest. stack = idx # rest \<Longrightarrow> \<not> remaining > 0 \<Longrightarrow> Q"
    and "\<And>idx rest. stack = idx # rest \<Longrightarrow> remaining > 0 \<Longrightarrow> \<not> isValid idx \<Longrightarrow> Q"
    and "\<And>idx rest. stack = idx # rest \<Longrightarrow> remaining > 0 \<Longrightarrow> isValid idx \<Longrightarrow> Q"
  shows Q
  using assms by (cases stack) (auto simp del: isValid.simps)


lemma push_fold:
  "\<forall>r \<in> set xs. r < rowCount m idx \<Longrightarrow>
   foldl (\<lambda>st r. let child = index m r idx in if isValid child then child # st else st)
     stack (rev xs) = map (Row idx) xs @ stack"
  by (induction xs) (simp_all add: index_def)

lemma push_children_eq:
  "push_children m idx stack = map (Row idx) [0..<rowCount m idx] @ stack"
  by (simp add: push_children_def push_fold)

lemma pre_rows_eq:
  "pre_rows idx k cs = concat (map (\<lambda>j. pre_node (Row idx (k + j)) (cs ! j)) [0..<length cs])"
proof (induction cs arbitrary: k)
  case Nil
  show ?case by simp
next
  case (Cons c cs)
  have "[0..<length (c # cs)] = 0 # map Suc [0..<length cs]"
    by (simp add: upt_conv_Cons map_Suc_upt del: upt_Suc)
  then show ?case by (simp add: Cons.IH comp_def del: upt_Suc)
qed

lemma node_at_child:
  "isValid idx \<Longrightarrow> node_at tops idx = Some n \<Longrightarrow> node_at tops (Row idx r) = row_at (node_children n) r"
  by (cases idx) simp_all


lemma pre_index_unfold:
  assumes "isValid idx"
  shows "pre_index m idx =
     idx # (if isDir m idx
            then concat (map (pre_index m) (map (Row idx) [0..<rowCount m idx])) else [])"
proof (cases "node_at (top_rows m) idx")
  case None
  then show ?thesis by (simp add: pre_index_def isDir_def)
next
  case (Some n)
  obtain nm pth d cs where n: "n = FsNode nm pth d cs" by (cases n)
  have "\<And>j. j < length cs \<Longrightarrow> pre_index m (Row idx j) = pre_node (Row idx j) (cs ! j)"
    using assms Some n by (simp add: pre_index_def node_at_child row_at_def)
  then have "map (\<lambda>j. pre_index m (Row idx j)) [0..<length cs] =
             map (\<lambda>j. pre_node (Row idx j) (cs ! j)) [0..<length cs]"
    by (intro map_cong) simp_all
  then have "concat (map (\<lambda>j. pre_index m (Row idx j)) [0..<length cs]) = pre_rows idx 0 cs"
    by (simp only: pre_rows_eq add_0)
  then have "concat (map (pre_index m) (map (Row idx) [0..<length cs])) = pre_rows idx 0 cs"
    by (simp add: comp_def)
  with Some n show ?thesis
    by (simp add: pre_index_def isDir_def rowCount_def)
qed

lemma pre_index_invalid: "\<not> isValid idx \<Longrightarrow> pre_index m idx = [idx]"
  by (cases idx) (simp_all add: pre_index_def)

lemma walk_preorder:
  "walk m needle stack remaining ex vis = (r', ex', vis') \<Longrightarrow>
     vis' = vis @ take (nat remaining) (concat (map (pre_index m) stack))"
proof (induction m needle stack remaining ex vis arbitrary: r' ex' vis' rule: walk.induct)
  case (1 m needle stack remaining ex vis)
  show ?case
  proof (cases rule: walk_cases [where stack = stack and remaining = remaining])
    case empty
    with "1.prems" show ?thesis by (simp add: walk_Nil)
  next
    case (stop idx rest)
    with "1.prems" show ?thesis by (simp add: walk_stop)
  next
    case (invalid idx rest)
    with "1.prems" have "walk m needle rest (remaining - 1) ex (vis @ [idx]) = (r', ex', vis')"
      by (simp add: walk_invalid)
    from "1.IH"(1)[OF invalid(1) _ _ this] invalid
    have "vis' = (vis @ [idx]) @ take (nat (remaining - 1)) (concat (map (pre_index m) rest))"
      by auto
    moreover from invalid(2) have "nat remaining = Suc (nat (remaining - 1))" by simp
    ultimately show ?thesis using invalid by (simp add: pre_index_invalid)
  next
    case (valid idx rest)
    let ?st = "if isDir m idx then push_children m idx rest else rest"
    from valid "1.prems" have "walk m needle ?st (remaining - 1)
          (if name_matches m needle idx then expand_up idx ex else ex) (vis @ [idx])
        = (r', ex', vis')"
      by (simp add: walk_valid)
    from "1.IH"(2)[OF valid(1) _ _ this] valid
    have "vis' = (vis @ [idx]) @ take (nat (remaining - 1)) (concat (map (pre_index m) ?st))"
      by auto
    moreover from valid(2) have "nat remaining = Suc (nat (remaining - 1))" by simp
    moreover have "concat (map (pre_index m) (idx # rest)) = idx # concat (map (pre_index m) ?st)"
      using pre_index_unfold [OF valid(3), of m] by (simp add: push_children_eq)
    ultimately show ?thesis using valid(1) by simp
  qed
qed

lemma walk_length:
  "walk m needle stack remaining ex vis = (r', ex', vis') \<Longrightarrow>
     int (length vis') = int (length vis) + (remaining - r') \<and>
     (0 \<le> remaining \<longrightarrow> 0 \<le> r') \<and> (remaining < 0 \<longrightarrow> r' = remaining)"
proof (induction m needle stack remaining ex vis arbitrary: r' ex' vis' rule: walk.induct)
  case (1 m needle stack remaining ex vis)
  show ?case
  proof (cases rule: walk_cases [where stack = stack and remaining = remaining])
    case empty
    with "1.prems" show ?thesis by (simp add: walk_Nil)
  next
    case (stop idx rest)
    with "1.prems" show ?thesis by (simp add: walk_stop)
  next
    case (invalid idx rest)
    with "1.prems" have "walk m needle rest (remaining - 1) ex (vis @ [idx]) = (r', ex', vis')"
      by (simp add: walk_invalid)
    from "1.IH"(1)[OF invalid(1) _ _ this] invalid show ?thesis by simp
  next
    case (valid idx rest)
    with "1.prems" have "walk m needle
          (if isDir m idx then push_children m idx rest else rest) (remaining - 1)
          (if name_matches m needle idx then expand_up idx ex else ex) (vis @ [idx])
        = (r', ex', vis')"
      by (simp add: walk_valid)
    from "1.IH"(2)[OF valid(1) _ _ this] valid show ?thesis by simp
  qed
qed

section \<open>Facts about the filter\<close>

lemma filter_tree_result:
  "filter_tree needle s =
     s\<lparr>expanded := (if needle = [] then {}
                     else fst (snd (walk (model s) needle [rootIndex s] 4000 {} []))),
       updatesEnabled := True,
       visited := (if needle = [] then []
                   else snd (snd (walk (model s) needle [rootIndex s] 4000 {} [])))\<rparr>"
  by (simp add: filter_tree_def expand_matching_under_def Let_def split: prod.splits)

lemma filter_tree_visited:
  assumes "needle \<noteq> []"
  shows "visited (filter_tree needle s) = take 4000 (pre_index (model s) (rootIndex s))"
proof -
  obtain r ex vis where w: "walk (model s) needle [rootIndex s] 4000 {} [] = (r, ex, vis)"
    by (cases "walk (model s) needle [rootIndex s] 4000 {} []") auto
  from walk_preorder [OF w] have "vis = take 4000 (pre_index (model s) (rootIndex s))"
    by simp
  with w assms show ?thesis by (simp add: filter_tree_result)
qed



lemma search_setText_result:
  "text \<noteq> search s \<Longrightarrow>
   search_setText text s = filter_tree (lower (strip text)) (s\<lparr>search := text\<rparr>)"
  by (auto simp add: search_setText_def apply_name_filter_def)










lemma pre_rows_leaves:
  "length (pre_rows idx k (replicate n (FsNode nm pth False []))) = n"
  by (induction n arbitrary: k) simp_all

lemma expand_matching_under_count:
  assumes "expand_matching_under parent_idx needle max_nodes s = (remaining, s')"
  shows "int (length (visited s')) = int (length (visited s)) + (max_nodes - remaining) \<and>
         length (visited s') \<le> length (visited s) + nat max_nodes"
proof -
  obtain r ex vis where
    w: "walk (model s) needle [parent_idx] max_nodes (expanded s) (visited s) = (r, ex, vis)"
    by (cases "walk (model s) needle [parent_idx] max_nodes (expanded s) (visited s)") auto
  with assms have e: "remaining = r" "visited s' = vis"
    by (auto simp: expand_matching_under_def)
  from walk_length [OF w] e show ?thesis by auto
qed

lemma pre_index_hd: "pre_index m idx = idx # tl (pre_index m idx)"
proof (cases "node_at (top_rows m) idx")
  case None
  then show ?thesis by (simp add: pre_index_def)
next
  case (Some n)
  then show ?thesis by (cases n) (simp add: pre_index_def)
qed














section \<open>The pattern dialog: properties\<close>

text \<open>
  C9. For every text of the pattern dialog, \<^verbatim>\<open>FilterDialog.patterns\<close> returns what the
  specification describes: the stripped text split on the semicolon, every segment
  stripped, the empty segments dropped. A text that is empty or all whitespace gives
  the empty list, and the text \<^verbatim>\<open>" *.py ; ;*.md"\<close> gives exactly \<^verbatim>\<open>["*.py", "*.md"]\<close>.
\<close>

theorem patterns_refines_spec:
  "patterns text = patterns_spec text \<and>
   (list_all is_space text \<longrightarrow> patterns text = []) \<and>
   patterns '' *.py ; ;*.md'' = [''*.py'', ''*.md'']"
proof -
  have a: "patterns text = patterns_spec text"
    by (simp add: patterns_def patterns_spec_def strip_Nil Let_def)
  have b: "list_all is_space text \<longrightarrow> patterns text = []"
    by (simp add: patterns_def strip_blank)
  have c: "patterns '' *.py ; ;*.md'' = [''*.py'', ''*.md'']"
    by code_simp
  from a b c show ?thesis by blast
qed

theorem patterns_refines_spec_witness:
  "list_all is_space [CHR '' '', CHR 0x09, CHR 0xA0, CHR 0x85] \<and>
   patterns [CHR '' '', CHR 0x09, CHR 0xA0, CHR 0x85] = []"
proof -
  have blank: "list_all is_space [CHR '' '', CHR 0x09, CHR 0xA0, CHR 0x85]"
    by (simp add: is_space_def)
  from patterns_refines_spec [of "[CHR '' '', CHR 0x09, CHR 0xA0, CHR 0x85]"]
  have "list_all is_space [CHR '' '', CHR 0x09, CHR 0xA0, CHR 0x85] \<longrightarrow>
        patterns [CHR '' '', CHR 0x09, CHR 0xA0, CHR 0x85] = []"
    by blast
  with blank show ?thesis by blast
qed

section \<open>Choosing the root folder: properties\<close>

text \<open>
  C1. For every path \<open>P\<close> that is not a directory (\<^verbatim>\<open>os.path.isdir\<close> fails on its absolute
  form, the test of line 167), \<^verbatim>\<open>set_root\<close> shows one modal warning dialog, whose text
  names the path in that absolute form, and changes nothing else: the tree's root index,
  the status bar, the search text and every other field of the state are as before.
\<close>

theorem set_root_not_directory:
  assumes "\<not> isdir env (abspath env P)"
  shows "set_root env P s =
           s\<lparr>dialogs := dialogs s @
              [Warning ''Not a folder''
                 (''That path is not a directory:'' @ [CHR 0x0A] @ abspath env P)]\<rparr> \<and>
         rootIndex (set_root env P s) = rootIndex s \<and>
         status (set_root env P s) = status s \<and>
         search (set_root env P s) = search s \<and>
         expanded (set_root env P s) = expanded s"
  using assms by (simp add: set_root_def not_a_directory_def)

theorem set_root_not_directory_witness:
  "\<not> isdir demo_env (abspath demo_env ''a.txt'') \<and>
   set_root demo_env ''a.txt'' demo_state =
     demo_state\<lparr>dialogs := [Warning ''Not a folder''
        (''That path is not a directory:'' @ [CHR 0x0A] @ ''/home/a.txt'')]\<rparr> \<and>
   rootIndex (set_root demo_env ''a.txt'' demo_state) = Row Invalid 0 \<and>
   status (set_root demo_env ''a.txt'' demo_state) = (''Root: /home'', 0) \<and>
   search (set_root demo_env ''a.txt'' demo_state) = ''old''"
  using set_root_not_directory [of demo_env "''a.txt''" demo_state]
  by (simp add: demo_env_def demo_state_def)

text \<open>
  C4. For every path whose absolute form is an existing directory, \<^verbatim>\<open>set_root\<close> sets the
  view's root index to the model's index of that absolute path, leaves the search text
  empty, and puts \<^verbatim>\<open>Root: \<close> followed by the new root path on the status bar, to stay.
  No dialog is shown.
\<close>

theorem set_root_directory:
  assumes "isdir env (abspath env P)"
  shows "rootIndex (set_root env P s) = path_index (model s) (abspath env P) \<and>
         search (set_root env P s) = [] \<and>
         status (set_root env P s) = (''Root: '' @ path_str env (abspath env P), 0) \<and>
         dialogs (set_root env P s) = dialogs s"
proof -
  let ?s2 = "s\<lparr>rootIndex := path_index (model s) (abspath env P),
               status := (''Root: '' @ path_str env (abspath env P), 0)\<rparr>"
  have e: "set_root env P s = search_setText [] ?s2"
    using assms by (simp add: set_root_def set_status_root_def Let_def)
  show ?thesis
  proof (cases "search s = []")
    case True
    then show ?thesis by (simp add: e search_setText_def)
  next
    case False
    then have "search_setText [] ?s2 = filter_tree (lower (strip [])) (?s2\<lparr>search := []\<rparr>)"
      by (simp add: search_setText_def apply_name_filter_def)
    then show ?thesis by (simp add: e filter_tree_result)
  qed
qed

theorem set_root_directory_witness:
  "isdir demo_env (abspath demo_env ''Notes'') \<and>
   rootIndex (set_root demo_env ''Notes'' demo_state) = Row (Row Invalid 0) 0 \<and>
   search (set_root demo_env ''Notes'' demo_state) = [] \<and>
   status (set_root demo_env ''Notes'' demo_state) = (''Root: /home/Notes'', 0)"
  using set_root_directory [of demo_env "''Notes''" demo_state]
  by (simp add: demo_env_def demo_state_def demo_model_def)

section \<open>Selection, clipboard and shell: properties\<close>

text \<open>
  C5. When no row is selected (\<^verbatim>\<open>selected_path\<close> returns \<^verbatim>\<open>None\<close>),
  \<^verbatim>\<open>copy_selected_path\<close> changes nothing: neither the clipboard nor the status bar.
  When a row is selected, the path of the first selected row (a non-empty string, as
  every path of a row is) goes to the clipboard, and the status bar shows
  \<^verbatim>\<open>Copied: \<close> and the path for 2500 ms.
\<close>

theorem copy_selected_path_cases:
  "(selectedRows s = None \<or> selectedRows s = Some [] \<longrightarrow> selected_path s = None) \<and>
   (selected_path s = None \<longrightarrow> copy_selected_path s = s) \<and>
   (selectedRows s = Some (i # others) \<and> filePath (model s) i \<noteq> [] \<longrightarrow>
      selected_path s = Some (filePath (model s) i) \<and>
      copy_selected_path s =
        s\<lparr>clipboard := filePath (model s) i,
          status := (''Copied: '' @ filePath (model s) i, 2500)\<rparr>)"
  by (auto simp add: copy_selected_path_def selected_path_def selected_index_def falsy_def)

theorem copy_selected_path_cases_witness:
  "selectedRows demo_state = Some [] \<and> copy_selected_path demo_state = demo_state \<and>
   selectedRows (demo_state\<lparr>selectedRows := Some [Row (Row Invalid 0) 2]\<rparr>)
     = Some [Row (Row Invalid 0) 2] \<and>
   filePath demo_model (Row (Row Invalid 0) 2) = ''/home/b.txt'' \<and>
   clipboard (copy_selected_path (demo_state\<lparr>selectedRows := Some [Row (Row Invalid 0) 2]\<rparr>))
     = ''/home/b.txt'' \<and>
   status (copy_selected_path (demo_state\<lparr>selectedRows := Some [Row (Row Invalid 0) 2]\<rparr>))
     = (''Copied: /home/b.txt'', 2500)"
proof -
  have p: "filePath demo_model (Row (Row Invalid 0) 2) = ''/home/b.txt''"
    by (simp add: filePath_def demo_model_def demo_rows_def row_at_def)
  have m: "model demo_state = demo_model" by (simp add: demo_state_def)
  have e: "selectedRows demo_state = Some []" by (simp add: demo_state_def)
  from copy_selected_path_cases [of demo_state] e
  have a: "copy_selected_path demo_state = demo_state" by blast
  from copy_selected_path_cases
         [of "demo_state\<lparr>selectedRows := Some [Row (Row Invalid 0) 2]\<rparr>" "Row (Row Invalid 0) 2" "[]"]
  have b: "copy_selected_path (demo_state\<lparr>selectedRows := Some [Row (Row Invalid 0) 2]\<rparr>) =
     demo_state\<lparr>selectedRows := Some [Row (Row Invalid 0) 2],
        clipboard := ''/home/b.txt'', status := (''Copied: /home/b.txt'', 2500)\<rparr>"
    by (simp add: p m)
  show ?thesis by (simp add: a b p e)
qed

section \<open>The pattern filter: properties\<close>

text \<open>
  C6. When the pattern dialog is accepted with a text that yields no pattern, the handler
  does what \<^verbatim>\<open>clear_pattern_filter\<close> does, and the model's name filters are the empty
  list. When the text yields patterns, they become the model's name filters and the
  model's filter-disables flag is off; the rows of the model are not touched by the
  handler.
\<close>

theorem filter_by_patterns_accepted:
  "(patterns text = [] \<longrightarrow>
      nameFilters (model (filter_by_patterns Accepted text s)) = [] \<and>
      filter_by_patterns Accepted text s = clear_pattern_filter s) \<and>
   (patterns text \<noteq> [] \<longrightarrow>
      nameFilters (model (filter_by_patterns Accepted text s)) = patterns text \<and>
      nameFilterDisables (model (filter_by_patterns Accepted text s)) = False \<and>
      top_rows (model (filter_by_patterns Accepted text s)) = top_rows (model s))"
  by (simp add: filter_by_patterns_def clear_pattern_filter_def setNameFilters_def
      setNameFilterDisables_def Let_def)

theorem filter_by_patterns_accepted_witness:
  "patterns ''  '' = [] \<and>
   nameFilters (model (filter_by_patterns Accepted ''  ''
      (setNameFilters [''*.c''] demo_state))) = [] \<and>
   patterns ''*.py;*.md'' = [''*.py'', ''*.md''] \<and>
   nameFilters (model (filter_by_patterns Accepted ''*.py;*.md'' demo_state)) = [''*.py'', ''*.md''] \<and>
   nameFilterDisables (model (filter_by_patterns Accepted ''*.py;*.md'' demo_state)) = False"
proof -
  have a: "patterns ''  '' = []" by code_simp
  have b: "patterns ''*.py;*.md'' = [''*.py'', ''*.md'']" by code_simp
  from a filter_by_patterns_accepted [of "''  ''" "setNameFilters [''*.c''] demo_state"]
  have c: "nameFilters (model (filter_by_patterns Accepted ''  ''
      (setNameFilters [''*.c''] demo_state))) = []" by blast
  from b filter_by_patterns_accepted [of "''*.py;*.md''" demo_state]
  have d: "nameFilters (model (filter_by_patterns Accepted ''*.py;*.md'' demo_state)) = [''*.py'', ''*.md''] \<and>
   nameFilterDisables (model (filter_by_patterns Accepted ''*.py;*.md'' demo_state)) = False"
    by simp
  from a b c d show ?thesis by blast
qed

section \<open>Incremental search: properties\<close>

text \<open>
  C2. Whatever the size of the model and whatever the needle, the walk of
  \<^verbatim>\<open>_expand_matching_under\<close> pops \<open>max_nodes - remaining\<close> stack entries, at most
  \<open>max_nodes\<close>; \<^verbatim>\<open>_filter_tree\<close> calls it with 4000, so a search visits at most 4000
  indexes. For a non-empty needle they are the first 4000 indexes of the depth-first
  order below the root index.
\<close>

theorem traversal_bounded:
  "int (length (visited (snd (expand_matching_under parent_idx needle max_nodes
          (s\<lparr>visited := []\<rparr>))))) =
     max_nodes - fst (expand_matching_under parent_idx needle max_nodes (s\<lparr>visited := []\<rparr>)) \<and>
   length (visited (snd (expand_matching_under parent_idx needle max_nodes
          (s\<lparr>visited := []\<rparr>)))) \<le> nat max_nodes \<and>
   (needle \<noteq> [] \<longrightarrow>
      visited (filter_tree needle s) = take 4000 (pre_index (model s) (rootIndex s))) \<and>
   length (visited (filter_tree needle s)) \<le> 4000"
proof -
  let ?r = "expand_matching_under parent_idx needle max_nodes (s\<lparr>visited := []\<rparr>)"
  have "?r = (fst ?r, snd ?r)" by simp
  from expand_matching_under_count [OF this]
  have a: "int (length (visited (snd ?r))) = max_nodes - fst ?r \<and>
           length (visited (snd ?r)) \<le> nat max_nodes"
    by simp
  have b: "needle \<noteq> [] \<longrightarrow>
      visited (filter_tree needle s) = take 4000 (pre_index (model s) (rootIndex s))"
    by (simp add: filter_tree_visited)
  have c: "length (visited (filter_tree needle s)) \<le> 4000"
  proof (cases "needle = []")
    case True
    then show ?thesis by (simp add: filter_tree_result)
  next
    case False
    with b show ?thesis by simp
  qed
  from a b c show ?thesis by blast
qed

theorem traversal_bounded_witness:
  "''f'' \<noteq> [] \<and> length (pre_index (model big_state) (rootIndex big_state)) = 5001 \<and>
   length (visited (filter_tree ''f'' big_state)) = 4000"
proof -
  have n: "length (pre_index (model big_state) (rootIndex big_state)) = 5001"
    by (simp add: big_state_def demo_state_def pre_index_def row_at_def pre_rows_leaves)
  from traversal_bounded [where needle = "''f''" and s = big_state]
  have "visited (filter_tree ''f'' big_state) =
          take 4000 (pre_index (model big_state) (rootIndex big_state))"
    by simp
  with n show ?thesis by simp
qed

text \<open>
  C7. When the search text changes, the tree is collapsed first. If the new text is empty
  (or its needle is), nothing is walked and nothing is expanded: the state differs from
  the old one in the search text, the empty expanded set and the empty trace only.
  Otherwise the walk runs from the collapsed view, starting at the current root index.
  So a walk has run only if the text is not empty.
\<close>

theorem search_change_collapses_then_walks:
  assumes "text \<noteq> search s"
  shows "(text = [] \<longrightarrow>
            search_setText text s =
              s\<lparr>search := [], expanded := {}, updatesEnabled := True, visited := []\<rparr>) \<and>
         (lower (strip text) = [] \<longrightarrow>
            expanded (search_setText text s) = {} \<and> visited (search_setText text s) = []) \<and>
         (lower (strip text) \<noteq> [] \<longrightarrow>
            expanded (search_setText text s) =
              fst (snd (walk (model s) (lower (strip text)) [rootIndex s] 4000 {} [])) \<and>
            visited (search_setText text s) =
              snd (snd (walk (model s) (lower (strip text)) [rootIndex s] 4000 {} [])) \<and>
            visited (search_setText text s) = take 4000 (pre_index (model s) (rootIndex s)) \<and>
            hd (visited (search_setText text s)) = rootIndex s) \<and>
         (visited (search_setText text s) \<noteq> [] \<longrightarrow> text \<noteq> [])"
proof -
  let ?n = "lower (strip text)"
  have e: "search_setText text s = filter_tree ?n (s\<lparr>search := text\<rparr>)"
    using assms by (rule search_setText_result)
  have a: "text = [] \<longrightarrow> search_setText text s =
              s\<lparr>search := [], expanded := {}, updatesEnabled := True, visited := []\<rparr>"
  proof
    assume t: "text = []"
    from e show "search_setText text s =
              s\<lparr>search := [], expanded := {}, updatesEnabled := True, visited := []\<rparr>"
      unfolding t by (simp add: filter_tree_result strip_Nil lower_def)
  qed
  have b: "?n = [] \<longrightarrow>
            expanded (search_setText text s) = {} \<and> visited (search_setText text s) = []"
    by (simp add: e filter_tree_result)
  have v: "?n \<noteq> [] \<longrightarrow>
      visited (search_setText text s) = take 4000 (pre_index (model s) (rootIndex s))"
    using filter_tree_visited [of ?n "s\<lparr>search := text\<rparr>"] by (simp add: e)
  have "hd (take 4000 (pre_index (model s) (rootIndex s))) = rootIndex s"
    by (subst pre_index_hd) simp
  with v have h: "?n \<noteq> [] \<longrightarrow> hd (visited (search_setText text s)) = rootIndex s"
    by simp
  have c: "?n \<noteq> [] \<longrightarrow>
            expanded (search_setText text s) =
              fst (snd (walk (model s) ?n [rootIndex s] 4000 {} [])) \<and>
            visited (search_setText text s) =
              snd (snd (walk (model s) ?n [rootIndex s] 4000 {} []))"
    by (simp add: e filter_tree_result)
  have d: "visited (search_setText text s) \<noteq> [] \<longrightarrow> text \<noteq> []"
    using a by auto
  from a b c v h d show ?thesis by blast
qed

theorem search_change_collapses_then_walks_witness:
  "'''' \<noteq> search demo_state \<and>
   search_setText '''' demo_state =
     demo_state\<lparr>search := [], expanded := {}, updatesEnabled := True, visited := []\<rparr> \<and>
   ''plan'' \<noteq> search demo_state \<and> lower (strip ''plan'') \<noteq> [] \<and>
   hd (visited (search_setText ''plan'' demo_state)) = Row Invalid 0"
proof -
  have a: "'''' \<noteq> search demo_state" by (simp add: demo_state_def)
  have b: "''plan'' \<noteq> search demo_state" by (simp add: demo_state_def)
  have c: "lower (strip ''plan'') \<noteq> []" by code_simp
  have r: "rootIndex demo_state = Row Invalid 0" by (simp add: demo_state_def)
  from search_change_collapses_then_walks [OF a]
  have d: "search_setText '''' demo_state =
     demo_state\<lparr>search := [], expanded := {}, updatesEnabled := True, visited := []\<rparr>"
    by blast
  from search_change_collapses_then_walks [OF b] c
  have "hd (visited (search_setText ''plan'' demo_state)) = rootIndex demo_state"
    by blast
  with r have e: "hd (visited (search_setText ''plan'' demo_state)) = Row Invalid 0"
    by simp
  from a b c d e show ?thesis by blast
qed






section \<open>Reveal in the file manager\<close>

text \<open>
  C8. With the file \<^verbatim>\<open>/home/b.txt\<close> selected, \<^verbatim>\<open>open_in_explorer\<close> hands
  \<^verbatim>\<open>os.startfile\<close> the parent folder \<^verbatim>\<open>/home\<close> and nothing else: the call it makes when
  the sibling \<^verbatim>\<open>a.txt\<close> is selected, and when the folder \<^verbatim>\<open>/home\<close> itself is. The file's
  name does not reach the file manager, which therefore cannot position at it.
\<close>

theorem open_in_explorer_file_opens_parent_only:
  "filePath (model demo_state) (Row (Row Invalid 0) 2) = ''/home/b.txt'' \<and>
   \<not> isdir demo_env ''/home/b.txt'' \<and>
   started (open_in_explorer demo_env (demo_state\<lparr>selectedRows := Some [Row (Row Invalid 0) 2]\<rparr>))
     = [''/home''] \<and>
   started (open_in_explorer demo_env (demo_state\<lparr>selectedRows := Some [Row (Row Invalid 0) 1]\<rparr>))
     = [''/home''] \<and>
   started (open_in_explorer demo_env (demo_state\<lparr>selectedRows := Some [Row Invalid 0]\<rparr>))
     = [''/home'']"
  by code_simp

end
